theory Spec2Isabelle
  imports Complex_Main "HOL-Library.AList"
begin

section \<open>GreenLeaf Organics, Norwood store: order placement and daily summary\<close>

text \<open>
  A shallow embedding of \<^verbatim>\<open>main.py\<close>: \<^verbatim>\<open>adjust_stock\<close>,
  \<^verbatim>\<open>validate_and_place_order\<close>, \<^verbatim>\<open>generate_daily_summary\<close> and
  \<^verbatim>\<open>store_summary\<close>. The Cosmos containers, the SQL table, the rendered PDFs and the
  printed diagnostics are fields of an explicit state that every operation takes and returns.
  Exceptions are values: an operation yields \<open>Inl e\<close> where the Python raises \<open>e\<close>.
\<close>

subsection \<open>Documents\<close>

text \<open>
  A product document. Its \<^verbatim>\<open>"id"\<close> is the key under which the container holds it
  (\<^verbatim>\<open>read_item(item=...)\<close> returns the document with that id), so it is the key of the
  association list below and not a field. Prices and totals are Python floats; they are
  taken as reals here, so rounding is not represented.
\<close>

record product =
  name :: string
  category :: string
  price :: real
  stock_quantity :: int
  supplier_id :: string
  store_id :: string

record item =
  product_id :: string
  product_name :: string
  quantity :: int
  unit_price :: real

text \<open>
  An order document. \<^verbatim>\<open>generate_daily_summary\<close> reads \<^verbatim>\<open>"order_total"\<close> and
  \<^verbatim>\<open>"items"\<close> with \<^verbatim>\<open>.get\<close> and a default, so both may be absent: they are
  options. \<open>oid\<close> is the \<^verbatim>\<open>"id"\<close> of the order.
\<close>

record order =
  oid :: string
  order_date :: string
  customer_name :: string
  customer_email :: string
  items :: "item list option"
  order_total :: "real option"
  order_store_id :: string

record summary =
  date :: string
  total_orders :: int
  total_revenue :: real
  most_popular_product :: "string option"

datatype exn =
  CosmosResourceNotFound string
  | KeyError string
  | SqlError string
  | PdfError string

text \<open>
  The dictionary \<^verbatim>\<open>validate_and_place_order\<close> returns:
  \<open>Error message available preorder\<close> for \<^verbatim>\<open>"status": "error"\<close> and
  \<open>Success warnings order_id invoice_filename\<close> for \<^verbatim>\<open>"status": "success"\<close>.
\<close>

datatype result =
  Error string int bool
  | Success "string list" string string

fun succeeded :: "exn + result \<Rightarrow> bool" where
  "succeeded (Inr (Success warnings order_id invoice_filename)) = True"
| "succeeded (Inr (Error message available preorder)) = False"
| "succeeded (Inl e) = False"

subsection \<open>The stores\<close>

type_synonym 'a container = "(string \<times> 'a) list"

record store =
  products :: "product container"
  orders :: "order container"
  invoices :: "order list"
  daily_summary :: "summary list"
  summary_pdfs :: "summary list"
  pdf_calls :: "summary list"
  printed :: "string list"

definition read_item :: "string \<Rightarrow> 'a container \<Rightarrow> exn + 'a" where
  "read_item k c = (case map_of c k of None \<Rightarrow> Inl (CosmosResourceNotFound k) | Some d \<Rightarrow> Inr d)"

definition replace_item :: "string \<Rightarrow> 'a \<Rightarrow> 'a container \<Rightarrow> exn + 'a container" where
  "replace_item k d c =
     (case map_of c k of None \<Rightarrow> Inl (CosmosResourceNotFound k) | Some _ \<Rightarrow> Inr (AList.update k d c))"

definition upsert_item :: "string \<Rightarrow> 'a \<Rightarrow> 'a container \<Rightarrow> 'a container" where
  "upsert_item k d c = AList.update k d c"

subsection \<open>Formatting integers\<close>

text \<open>Python's \<^verbatim>\<open>str\<close> of an integer, as the f-strings of the warnings use it.\<close>

definition digit :: "nat \<Rightarrow> char" where
  "digit n = ''0123456789'' ! (n mod 10)"

function str_nat :: "nat \<Rightarrow> string" where
  "str_nat n = (if n < 10 then [digit n] else str_nat (n div 10) @ [digit n])"
  by pat_completeness auto
termination
  by (relation "measure id") auto

declare str_nat.simps [simp del]

definition str_int :: "int \<Rightarrow> string" where
  "str_int i = (if i < 0 then CHR ''-'' # str_nat (nat (- i)) else str_nat (nat i))"

subsection \<open>Staff stock adjustment\<close>

definition adjust_stock :: "string \<Rightarrow> int \<Rightarrow> store \<Rightarrow> (exn + int) \<times> store" where
  "adjust_stock pid adjustment st =
     (case read_item pid (products st) of
        Inl e \<Rightarrow> (Inl e, st)
      | Inr product \<Rightarrow>
          let q = stock_quantity product + adjustment;
              q' = (if q < 0 then 0 else q);
              product' = product\<lparr>stock_quantity := q'\<rparr>
          in (case replace_item pid product' (products st) of
                Inl e \<Rightarrow> (Inl e, st)
              | Inr ps \<Rightarrow> (Inr q', st\<lparr>products := ps\<rparr>)))"

subsection \<open>Order validation and placement\<close>

text \<open>
  How one pass through the body of the \<^verbatim>\<open>for item in order["items"]\<close> loop ends: an
  exception, the early \<^verbatim>\<open>return\<close> of the error dictionary, or the next iteration with
  the warnings collected so far.
\<close>

datatype loop_exit =
  Raised exn
  | Returned result
  | Continue "string list"

definition preorder_warning :: "int \<Rightarrow> int \<Rightarrow> string" where
  "preorder_warning requested available =
     ''Pre-order placed for '' @ str_int (requested - available) @ '' unit(s)''"

definition low_stock_warning :: "product \<Rightarrow> string" where
  "low_stock_warning product =
     ''Low stock alert: '' @ name product @ '' ('' @ str_int (stock_quantity product) @ '' left)''"

definition place_item ::
  "bool \<Rightarrow> item \<Rightarrow> product container \<Rightarrow> string list \<Rightarrow> loop_exit \<times> product container" where
  "place_item allow_preorder it ps warnings =
     (case read_item (product_id it) ps of
        Inl e \<Rightarrow> (Raised e, ps)
      | Inr product \<Rightarrow>
          let available = stock_quantity product;
              requested = quantity it
          in if requested > available \<and> \<not> allow_preorder
             then (Returned (Error (''Only '' @ str_int available @ '' unit(s) available.'')
                                   available True), ps)
             else
               let warnings1 = (if requested > available
                                then warnings @ [preorder_warning requested available]
                                else warnings);
                   requested1 = (if requested > available then available else requested);
                   product1 = product\<lparr>stock_quantity := stock_quantity product - requested1\<rparr>
               in (case replace_item (product_id it) product1 ps of
                     Inl e \<Rightarrow> (Raised e, ps)
                   | Inr ps1 \<Rightarrow>
                       (Continue (if stock_quantity product1 < 10
                                  then warnings1 @ [low_stock_warning product1]
                                  else warnings1), ps1)))"

fun place_items ::
  "bool \<Rightarrow> item list \<Rightarrow> product container \<Rightarrow> string list \<Rightarrow> loop_exit \<times> product container" where
  "place_items allow_preorder [] ps warnings = (Continue warnings, ps)"
| "place_items allow_preorder (it # rest) ps warnings =
     (case place_item allow_preorder it ps warnings of
        (Continue warnings1, ps1) \<Rightarrow> place_items allow_preorder rest ps1 warnings1
      | (Raised e, ps1) \<Rightarrow> (Raised e, ps1)
      | (Returned r, ps1) \<Rightarrow> (Returned r, ps1))"

text \<open>
  Modelled from the spec: \<^verbatim>\<open>pdf_utils.generate_invoice_pdf\<close> is not among the sources.
  The spec has the artifact generator \<^verbatim>\<open>RenderInvoice(Order) -> artifactRef\<close> produce
  an invoice identifier derived from the order id, and \<^verbatim>\<open>app.py\<close> links to
  \<^verbatim>\<open>invoice_{order_id}.pdf\<close>. The call is recorded in \<open>invoices\<close>.
\<close>

definition generate_invoice_pdf :: "order \<Rightarrow> store \<Rightarrow> string \<times> store" where
  "generate_invoice_pdf order st =
     (''invoice_'' @ oid order @ ''.pdf'', st\<lparr>invoices := invoices st @ [order]\<rparr>)"

definition validate_and_place_order :: "order \<Rightarrow> bool \<Rightarrow> store \<Rightarrow> (exn + result) \<times> store" where
  "validate_and_place_order order allow_preorder st =
     (case items order of
        None \<Rightarrow> (Inl (KeyError ''items''), st)
      | Some its \<Rightarrow>
          (case place_items allow_preorder its (products st) [] of
             (Raised e, ps) \<Rightarrow> (Inl e, st\<lparr>products := ps\<rparr>)
           | (Returned r, ps) \<Rightarrow> (Inr r, st\<lparr>products := ps\<rparr>)
           | (Continue warnings, ps) \<Rightarrow>
               let st1 = st\<lparr>products := ps, orders := upsert_item (oid order) order (orders st)\<rparr>;
                   (invoice_filename, st2) = generate_invoice_pdf order st1
               in (Inr (Success warnings (oid order) invoice_filename), st2)))"

subsection \<open>Daily summary\<close>

text \<open>
  The query \<^verbatim>\<open>SELECT * FROM c WHERE c.order_date = @date\<close> over the orders container.
\<close>

definition query_items :: "string \<Rightarrow> order container \<Rightarrow> order list" where
  "query_items summary_date c = filter (\<lambda>order. order_date order = summary_date) (map snd c)"

text \<open>
  \<^verbatim>\<open>product_totals\<close> is a Python dictionary: an association list in insertion order,
  where assigning to a present key keeps its place and a new key goes to the end
  (\<^const>\<open>AList.update\<close>).
\<close>

definition dict_get :: "(string \<times> int) list \<Rightarrow> string \<Rightarrow> int \<Rightarrow> int" where
  "dict_get d k dflt = (case map_of d k of None \<Rightarrow> dflt | Some v \<Rightarrow> v)"

definition tally_item :: "(string \<times> int) list \<Rightarrow> item \<Rightarrow> (string \<times> int) list" where
  "tally_item product_totals it =
     AList.update (product_name it)
       (dict_get product_totals (product_name it) 0 + quantity it) product_totals"

definition order_items :: "order \<Rightarrow> item list" where
  "order_items order = (case items order of None \<Rightarrow> [] | Some its \<Rightarrow> its)"

definition tally_order :: "(string \<times> int) list \<Rightarrow> order \<Rightarrow> (string \<times> int) list" where
  "tally_order product_totals order = foldl tally_item product_totals (order_items order)"

text \<open>
  \<^verbatim>\<open>max(product_totals, key=product_totals.get)\<close>: the keys are visited in insertion
  order and the candidate is replaced only by a strictly greater value, so the first key
  with the greatest value is returned.
\<close>

fun max_from :: "string \<times> int \<Rightarrow> (string \<times> int) list \<Rightarrow> string \<times> int" where
  "max_from best [] = best"
| "max_from best (kv # rest) = max_from (if snd kv > snd best then kv else best) rest"

definition max_key :: "(string \<times> int) list \<Rightarrow> string option" where
  "max_key d = (case d of [] \<Rightarrow> None | kv # rest \<Rightarrow> Some (fst (max_from kv rest)))"

definition order_revenue :: "order \<Rightarrow> real" where
  "order_revenue order = (case order_total order of None \<Rightarrow> 0 | Some t \<Rightarrow> t)"

definition product_totals :: "order list \<Rightarrow> (string \<times> int) list" where
  "product_totals os = foldl tally_order [] os"

definition generate_daily_summary :: "string \<Rightarrow> store \<Rightarrow> summary" where
  "generate_daily_summary summary_date st =
     (let os = query_items summary_date (orders st);
          most_popular = (if product_totals os \<noteq> [] then max_key (product_totals os) else None)
      in \<lparr>date = summary_date,
          total_orders = int (length os),
          total_revenue = foldl (+) 0 (map order_revenue os),
          most_popular_product = most_popular\<rparr>)"

subsection \<open>Storing a summary\<close>

text \<open>
  What the SQL server does during one call of \<^verbatim>\<open>store_summary\<close> is an input of the
  model: \<open>None\<close> when connection, statement and commit all go through, otherwise the step
  at which pyodbc raises, with the text \<^verbatim>\<open>str(e)\<close> of the exception. A row of the table
  \<^verbatim>\<open>daily_summary\<close> has the four columns of a summary. A failed step leaves the
  committed table as it was.
\<close>

datatype sql_fault = ConnectFails string | ExecuteFails string | CommitFails string

fun fault_text :: "sql_fault \<Rightarrow> string" where
  "fault_text (ConnectFails m) = m"
| "fault_text (ExecuteFails m) = m"
| "fault_text (CommitFails m) = m"

definition insert_if_absent :: "summary \<Rightarrow> summary list \<Rightarrow> summary list" where
  "insert_if_absent s rows = (if date s \<in> date ` set rows then rows else rows @ [s])"

definition sql_write :: "sql_fault option \<Rightarrow> summary \<Rightarrow> summary list \<Rightarrow> exn + summary list" where
  "sql_write fault s rows =
     (case fault of
        Some f \<Rightarrow> Inl (SqlError (fault_text f))
      | None \<Rightarrow> Inr (insert_if_absent s rows))"

text \<open>
  Modelled from the spec: \<^verbatim>\<open>pdf_utils.generate_daily_summary_pdf\<close> is not among the
  sources. The spec has the artifact generator \<^verbatim>\<open>RenderSummary(DailySummary)\<close>
  materialize an immutable artifact for the summary. Whether a call raises is an input
  (\<open>Some m\<close>: it raises an exception whose text is \<open>m\<close>). Every call is recorded in
  \<open>pdf_calls\<close>; a call that returns has produced its artifact, recorded in
  \<open>summary_pdfs\<close>.
\<close>

definition generate_daily_summary_pdf ::
  "string option \<Rightarrow> summary \<Rightarrow> store \<Rightarrow> (exn + unit) \<times> store" where
  "generate_daily_summary_pdf raises s st =
     (case raises of
        Some m \<Rightarrow> (Inl (PdfError m), st\<lparr>pdf_calls := pdf_calls st @ [s]\<rparr>)
      | None \<Rightarrow> (Inr (), st\<lparr>summary_pdfs := summary_pdfs st @ [s],
                            pdf_calls := pdf_calls st @ [s]\<rparr>))"

text \<open>
  The line \<^verbatim>\<open>print("... Azure SQL unavailable:", e)\<close>: the warning sign U+26A0 (three
  bytes in UTF-8), the text, a blank and \<^verbatim>\<open>str(e)\<close>. Only the exceptions of the SQL
  calls and of the generator are raised inside the \<^verbatim>\<open>try\<close>, and they carry their
  text; \<open>exn_text\<close> says nothing about the others.
\<close>

definition warning_sign :: string where
  "warning_sign = [CHR 0xE2, CHR 0x9A, CHR 0xA0]"

fun exn_text :: "exn \<Rightarrow> string" where
  "exn_text (SqlError m) = m"
| "exn_text (PdfError m) = m"

definition diagnostic :: "exn \<Rightarrow> string" where
  "diagnostic e = warning_sign @ '' Azure SQL unavailable: '' @ exn_text e"

text \<open>
  The body of the \<^verbatim>\<open>try\<close>: cursor, statement, commit, then the generator and
  \<^verbatim>\<open>return True\<close>.
\<close>

definition store_summary_try ::
  "sql_fault option \<Rightarrow> string option \<Rightarrow> summary \<Rightarrow> store \<Rightarrow> (exn + unit) \<times> store" where
  "store_summary_try fault pdf_try s st =
     (case sql_write fault s (daily_summary st) of
        Inl e \<Rightarrow> (Inl e, st)
      | Inr rows \<Rightarrow> generate_daily_summary_pdf pdf_try s (st\<lparr>daily_summary := rows\<rparr>))"

text \<open>
  \<open>pdf_try\<close> is what the generator does when called in the \<^verbatim>\<open>try\<close>, \<open>pdf_handler\<close>
  what it does when called in the \<^verbatim>\<open>except\<close> branch. An exception of the latter call
  leaves the function.
\<close>

definition store_summary ::
  "sql_fault option \<Rightarrow> string option \<Rightarrow> string option \<Rightarrow> summary \<Rightarrow> store
     \<Rightarrow> (exn + bool) \<times> store" where
  "store_summary fault pdf_try pdf_handler s st =
     (case store_summary_try fault pdf_try s st of
        (Inr u, st1) \<Rightarrow> (Inr True, st1)
      | (Inl e, st1) \<Rightarrow>
          (case generate_daily_summary_pdf pdf_handler s
                  (st1\<lparr>printed := printed st1 @ [diagnostic e]\<rparr>) of
             (Inr u, st2) \<Rightarrow> (Inr False, st2)
           | (Inl e', st2) \<Rightarrow> (Inl e', st2)))"

subsection \<open>Sequences of calls\<close>

datatype call = PlaceOrder order bool | AdjustStock string int

fun run_call :: "call \<Rightarrow> store \<Rightarrow> store" where
  "run_call (PlaceOrder order allow_preorder) st = snd (validate_and_place_order order allow_preorder st)"
| "run_call (AdjustStock pid adjustment) st = snd (adjust_stock pid adjustment st)"

fun run_calls :: "call list \<Rightarrow> store \<Rightarrow> store" where
  "run_calls [] st = st"
| "run_calls (c # cs) st = run_calls cs (run_call c st)"

definition stock_nonneg :: "store \<Rightarrow> bool" where
  "stock_nonneg st = list_all (\<lambda>kp. 0 \<le> stock_quantity (snd kp)) (products st)"

subsection \<open>Overlapping calls\<close>








subsection \<open>Quantities the properties speak of\<close>

text \<open>The units an item sequence requests of one product, by product id and by product name.\<close>

definition units_for :: "string \<Rightarrow> item list \<Rightarrow> int" where
  "units_for pid its = sum_list (map quantity (filter (\<lambda>i. product_id i = pid) its))"

definition units_named :: "string \<Rightarrow> item list \<Rightarrow> int" where
  "units_named n its = sum_list (map quantity (filter (\<lambda>i. product_name i = n) its))"

definition line_items :: "order list \<Rightarrow> item list" where
  "line_items os = concat (map order_items os)"

text \<open>
  Every item references a stored product and asks for no more than what the earlier items
  of the same sequence leave of that product's stock.
\<close>

fun within_stock :: "product container \<Rightarrow> item list \<Rightarrow> item list \<Rightarrow> bool" where
  "within_stock ps earlier [] = True"
| "within_stock ps earlier (it # rest) =
     ((case map_of ps (product_id it) of
         None \<Rightarrow> False
       | Some p \<Rightarrow> quantity it \<le> stock_quantity p - units_for (product_id it) earlier)
      \<and> within_stock ps (earlier @ [it]) rest)"

subsection \<open>Sample data\<close>

definition apple :: product where
  "apple = \<lparr>name = ''Apple'', category = ''Fruit'', price = 3.5, stock_quantity = 20,
            supplier_id = ''sup_1'', store_id = ''norwood''\<rparr>"

definition banana :: product where
  "banana = \<lparr>name = ''Banana'', category = ''Fruit'', price = 2.8, stock_quantity = 20,
             supplier_id = ''sup_1'', store_id = ''norwood''\<rparr>"

definition seeded :: store where
  "seeded = \<lparr>products = [(''prod_001'', apple), (''prod_002'', banana)], orders = [],
             invoices = [], daily_summary = [], summary_pdfs = [], pdf_calls = [],
             printed = []\<rparr>"

definition apples :: "int \<Rightarrow> item" where
  "apples q = \<lparr>product_id = ''prod_001'', product_name = ''Apple'', quantity = q, unit_price = 3.5\<rparr>"

definition bananas :: "int \<Rightarrow> item" where
  "bananas q = \<lparr>product_id = ''prod_002'', product_name = ''Banana'', quantity = q, unit_price = 2.8\<rparr>"

definition order_of :: "string \<Rightarrow> item list \<Rightarrow> real \<Rightarrow> order" where
  "order_of email its amount =
     \<lparr>oid = ''order_2024-05-01_'' @ email, order_date = ''2024-05-01'', customer_name = ''Ada'',
      customer_email = email, items = Some its, order_total = Some amount,
      order_store_id = ''norwood''\<rparr>"

definition two_days :: store where
  "two_days = seeded\<lparr>orders :=
     [(''order_2024-05-01_ada@example.org'', order_of ''ada@example.org'' [apples 3, bananas 2] 16.1),
      (''order_2024-05-02_cy@example.org'',
         (order_of ''cy@example.org'' [apples 9] 31.5)\<lparr>oid := ''order_2024-05-02_cy@example.org'',
            order_date := ''2024-05-02''\<rparr>),
      (''order_2024-05-01_bob@example.org'', order_of ''bob@example.org'' [bananas 4] 11.2)]\<rparr>"



definition first_summary :: summary where
  "first_summary = \<lparr>date = ''2024-05-01'', total_orders = 1, total_revenue = 17.5,
                     most_popular_product = Some ''Apple''\<rparr>"

definition second_summary :: summary where
  "second_summary = \<lparr>date = ''2024-05-01'', total_orders = 2, total_revenue = 25.9,
                      most_popular_product = Some ''Apple''\<rparr>"




section \<open>Properties\<close>

subsection \<open>The item loop\<close>

lemma place_item_missing:
  "map_of ps (product_id it) = None \<Longrightarrow>
   place_item ap it ps ws = (Raised (CosmosResourceNotFound (product_id it)), ps)"
  by (simp add: place_item_def read_item_def)

lemma place_item_rejected:
  "map_of ps (product_id it) = Some p \<Longrightarrow> stock_quantity p < quantity it \<Longrightarrow>
   place_item False it ps ws =
     (Returned (Error (''Only '' @ str_int (stock_quantity p) @ '' unit(s) available.'')
                      (stock_quantity p) True), ps)"
  by (simp add: place_item_def read_item_def Let_def)

lemma place_item_preordered:
  "map_of ps (product_id it) = Some p \<Longrightarrow> stock_quantity p < quantity it \<Longrightarrow>
   place_item True it ps ws =
     (Continue (ws @ [preorder_warning (quantity it) (stock_quantity p),
                      low_stock_warning (p\<lparr>stock_quantity := 0\<rparr>)]),
      AList.update (product_id it) (p\<lparr>stock_quantity := 0\<rparr>) ps)"
  by (simp add: place_item_def read_item_def replace_item_def Let_def)

lemma place_item_filled:
  "map_of ps (product_id it) = Some p \<Longrightarrow> quantity it \<le> stock_quantity p \<Longrightarrow>
   place_item ap it ps ws =
     (Continue (if stock_quantity p - quantity it < 10
                then ws @ [low_stock_warning (p\<lparr>stock_quantity := stock_quantity p - quantity it\<rparr>)]
                else ws),
      AList.update (product_id it) (p\<lparr>stock_quantity := stock_quantity p - quantity it\<rparr>) ps)"
  by (simp add: place_item_def read_item_def replace_item_def Let_def)

lemma place_items_append:
  "place_items ap (xs @ ys) ps ws =
     (case place_items ap xs ps ws of
        (Continue ws1, ps1) \<Rightarrow> place_items ap ys ps1 ws1
      | (Raised e, ps1) \<Rightarrow> (Raised e, ps1)
      | (Returned r, ps1) \<Rightarrow> (Returned r, ps1))"
  by (induction xs arbitrary: ps ws) (auto split: prod.splits loop_exit.splits)

lemma units_for_snoc:
  "units_for k (earlier @ [it]) = units_for k earlier + (if product_id it = k then quantity it else 0)"
  by (simp add: units_for_def)

lemma units_for_unreferenced:
  "k \<notin> product_id ` set its \<Longrightarrow> units_for k its = 0"
  by (induction its) (auto simp: units_for_def)

lemma place_items_within_stock:
  assumes "within_stock ps0 earlier its"
    and "\<And>k. map_of ps k =
           map_option (\<lambda>p. p\<lparr>stock_quantity := stock_quantity p - units_for k earlier\<rparr>) (map_of ps0 k)"
  shows "\<exists>ws' ps'. place_items ap its ps ws = (Continue ws', ps') \<and>
           (\<forall>k. map_of ps' k =
              map_option (\<lambda>p. p\<lparr>stock_quantity := stock_quantity p - units_for k (earlier @ its)\<rparr>)
                (map_of ps0 k))"
  using assms
proof (induction its arbitrary: earlier ps ws)
  case Nil
  then show ?case by simp
next
  case (Cons it rest)
  from Cons.prems(1) obtain p0 where
    p0: "map_of ps0 (product_id it) = Some p0"
    and le: "quantity it \<le> stock_quantity p0 - units_for (product_id it) earlier"
    and rest: "within_stock ps0 (earlier @ [it]) rest"
    by (auto split: option.splits)
  define p where "p = p0\<lparr>stock_quantity := stock_quantity p0 - units_for (product_id it) earlier\<rparr>"
  have p: "map_of ps (product_id it) = Some p"
    using Cons.prems(2) [of "product_id it"] p0 by (simp add: p_def)
  have q: "quantity it \<le> stock_quantity p"
    using le by (simp add: p_def)
  define ps1 where
    "ps1 = AList.update (product_id it) (p\<lparr>stock_quantity := stock_quantity p - quantity it\<rparr>) ps"
  obtain ws1 where step: "place_item ap it ps ws = (Continue ws1, ps1)"
    using place_item_filled [OF p q, of ap ws] by (simp add: ps1_def)
  have inv: "map_of ps1 k =
      map_option (\<lambda>p. p\<lparr>stock_quantity := stock_quantity p - units_for k (earlier @ [it])\<rparr>)
        (map_of ps0 k)" for k
  proof (cases "k = product_id it")
    case True
    then show ?thesis
      using p0 by (simp add: ps1_def update_conv' p_def units_for_snoc)
  next
    case False
    then show ?thesis
      using Cons.prems(2) [of k] by (simp add: ps1_def update_conv' units_for_snoc)
  qed
  from Cons.IH [OF rest inv, of ws1] step show ?case by simp
qed

subsection \<open>Oversell without preorder\<close>

lemmas sample_defs =
  seeded_def apple_def banana_def apples_def bananas_def order_of_def

lemmas engine_defs =
  validate_and_place_order_def place_item_def read_item_def replace_item_def upsert_item_def
  generate_invoice_pdf_def preorder_warning_def low_stock_warning_def str_int_def
  str_nat.simps digit_def Let_def

text \<open>
  C1, as stated, fails: an order of 5 apples and 25 bananas against 20 of each, without
  preorder, is rejected at the bananas with \<open>available = 20\<close>, but the 5 apples of the
  first item have already been taken from the stock, which is left at 15.
\<close>

theorem oversell_partial_commit_counterexample:
  "quantity (bananas 25) > stock_quantity banana \<and>
   map (stock_quantity \<circ> snd) (products seeded) = [20, 20] \<and>
   fst (validate_and_place_order (order_of ''ada@example.org'' [apples 5, bananas 25] 87.5) False seeded)
     = Inr (Error ''Only 20 unit(s) available.'' 20 True) \<and>
   map (stock_quantity \<circ> snd) (products (snd (validate_and_place_order
        (order_of ''ada@example.org'' [apples 5, bananas 25] 87.5) False seeded)))
     = [15, 20]"
  by (simp add: sample_defs engine_defs)

text \<open>
  C1, amended: when the items before \<open>it\<close> are within stock and \<open>it\<close> asks for more than
  they leave of its product, \<^verbatim>\<open>validate_and_place_order\<close> without preorder returns the
  error result carrying the stock that is left at that point. Nothing but the products
  container differs in the resulting state (no order is stored, no invoice rendered), and
  there each product has lost exactly what the earlier items requested of it: the products
  no earlier item references are unchanged, those of the earlier items stay decremented.
\<close>

theorem oversell_without_preorder:
  assumes "items order = Some (pre @ it # post)"
    and "within_stock (products st) [] pre"
    and "map_of (products st) (product_id it) = Some p"
    and "stock_quantity p - units_for (product_id it) pre < quantity it"
  shows "\<exists>ps. validate_and_place_order order False st =
           (Inr (Error (''Only '' @ str_int (stock_quantity p - units_for (product_id it) pre)
                          @ '' unit(s) available.'')
                       (stock_quantity p - units_for (product_id it) pre) True),
            st\<lparr>products := ps\<rparr>) \<and>
         (\<forall>k. map_of ps k =
            map_option (\<lambda>p. p\<lparr>stock_quantity := stock_quantity p - units_for k pre\<rparr>)
              (map_of (products st) k))"
proof -
  have start: "map_of (products st) k =
      map_option (\<lambda>p. p\<lparr>stock_quantity := stock_quantity p - units_for k []\<rparr>)
        (map_of (products st) k)" for k
    by (cases "map_of (products st) k") (simp_all add: units_for_def)
  obtain ws1 ps1 where
    run: "place_items False pre (products st) [] = (Continue ws1, ps1)"
    and inv: "\<And>k. map_of ps1 k =
      map_option (\<lambda>p. p\<lparr>stock_quantity := stock_quantity p - units_for k pre\<rparr>)
        (map_of (products st) k)"
    using place_items_within_stock [OF assms(2) start, of False "[]"] by auto
  define p1 where "p1 = p\<lparr>stock_quantity := stock_quantity p - units_for (product_id it) pre\<rparr>"
  have p1: "map_of ps1 (product_id it) = Some p1"
    using inv [of "product_id it"] assms(3) by (simp add: p1_def)
  have short: "stock_quantity p1 < quantity it"
    using assms(4) by (simp add: p1_def)
  have "place_items False (pre @ it # post) (products st) [] =
      (Returned (Error (''Only '' @ str_int (stock_quantity p1) @ '' unit(s) available.'')
                       (stock_quantity p1) True), ps1)"
    using run place_item_rejected [OF p1 short] by (simp add: place_items_append)
  then have "validate_and_place_order order False st =
      (Inr (Error (''Only '' @ str_int (stock_quantity p1) @ '' unit(s) available.'')
                  (stock_quantity p1) True), st\<lparr>products := ps1\<rparr>)"
    using assms(1) by (simp add: validate_and_place_order_def)
  with inv show ?thesis
    by (auto simp: p1_def)
qed

text \<open>
  The hypotheses of C1 (amended) at the order of 5 apples and 25 bananas: the error carries
  20, the apples are at 15 and the bananas untouched.
\<close>

theorem oversell_without_preorder_witness:
  "\<exists>ps. validate_and_place_order (order_of ''ada@example.org'' [apples 5, bananas 25] 87.5) False seeded =
     (Inr (Error ''Only 20 unit(s) available.'' 20 True), seeded\<lparr>products := ps\<rparr>) \<and>
     map_of ps ''prod_001'' = Some (apple\<lparr>stock_quantity := 15\<rparr>) \<and>
     map_of ps ''prod_002'' = Some banana"
proof -
  have a: "items (order_of ''ada@example.org'' [apples 5, bananas 25] 87.5) = Some ([apples 5] @ bananas 25 # [])"
    by (simp add: order_of_def)
  have b: "within_stock (products seeded) [] [apples 5]"
    by (simp add: sample_defs units_for_def)
  have c: "map_of (products seeded) (product_id (bananas 25)) = Some banana"
    by (simp add: sample_defs)
  have d: "stock_quantity banana - units_for (product_id (bananas 25)) [apples 5] < quantity (bananas 25)"
    by (simp add: sample_defs units_for_def)
  from oversell_without_preorder [OF a b c d] obtain ps where
    r: "validate_and_place_order (order_of ''ada@example.org'' [apples 5, bananas 25] 87.5) False seeded =
         (Inr (Error (''Only '' @ str_int (stock_quantity banana - units_for (product_id (bananas 25)) [apples 5])
                          @ '' unit(s) available.'')
                       (stock_quantity banana - units_for (product_id (bananas 25)) [apples 5]) True),
            seeded\<lparr>products := ps\<rparr>)"
    and m: "\<And>k. map_of ps k =
            map_option (\<lambda>p. p\<lparr>stock_quantity := stock_quantity p - units_for k [apples 5]\<rparr>)
              (map_of (products seeded) k)"
    by blast
  have e: "stock_quantity banana - units_for (product_id (bananas 25)) [apples 5] = 20"
    by (simp add: sample_defs units_for_def)
  have "map_of ps ''prod_001'' = Some (apple\<lparr>stock_quantity := 15\<rparr>)"
    using m [of "''prod_001''"] by (simp add: sample_defs units_for_def)
  moreover have "map_of ps ''prod_002'' = Some banana"
    using m [of "''prod_002''"] by (simp add: sample_defs units_for_def)
  moreover have "validate_and_place_order (order_of ''ada@example.org'' [apples 5, bananas 25] 87.5) False seeded =
     (Inr (Error ''Only 20 unit(s) available.'' 20 True), seeded\<lparr>products := ps\<rparr>)"
    using r unfolding e by (simp add: str_int_def str_nat.simps digit_def)
  ultimately show ?thesis by blast
qed

subsection \<open>Orders within stock\<close>

text \<open>
  When no product occurs twice, \<^const>\<open>within_stock\<close> says that every item asks for no more
  than the stock of its product.
\<close>

lemma within_stock_distinct:
  assumes "distinct (map product_id its)"
    and "product_id ` set its \<inter> product_id ` set earlier = {}"
    and "\<forall>i\<in>set its. \<exists>p. map_of ps (product_id i) = Some p \<and> quantity i \<le> stock_quantity p"
  shows "within_stock ps earlier its"
  using assms
proof (induction its arbitrary: earlier)
  case Nil
  then show ?case by simp
next
  case (Cons it rest)
  have "product_id it \<notin> product_id ` set earlier"
    using Cons.prems(2) by auto
  then have none: "units_for (product_id it) earlier = 0"
    by (rule units_for_unreferenced)
  have "product_id ` set rest \<inter> product_id ` set (earlier @ [it]) = {}"
    using Cons.prems(1,2) by auto
  then have "within_stock ps (earlier @ [it]) rest"
    using Cons.IH Cons.prems(1,3) by simp
  then show ?case
    using Cons.prems(3) none by auto
qed

text \<open>
  C3: an order whose every item asks for no more than the stock its product has when the
  item's turn comes is placed without preorder: the result is a success, every product has
  lost exactly the units the order's items request of it (a product that no item references
  keeps its stock), and the order is stored under its id.
\<close>

theorem in_stock_order_succeeds:
  assumes "items order = Some its"
    and "within_stock (products st) [] its"
  shows "\<exists>ws f st'. validate_and_place_order order False st =
           (Inr (Success ws (oid order) f), st') \<and>
         (\<forall>k. map_of (products st') k =
            map_option (\<lambda>p. p\<lparr>stock_quantity := stock_quantity p - units_for k its\<rparr>)
              (map_of (products st) k)) \<and>
         map_of (orders st') (oid order) = Some order"
proof -
  have start: "map_of (products st) k =
      map_option (\<lambda>p. p\<lparr>stock_quantity := stock_quantity p - units_for k []\<rparr>)
        (map_of (products st) k)" for k
    by (cases "map_of (products st) k") (simp_all add: units_for_def)
  obtain ws ps where
    run: "place_items False its (products st) [] = (Continue ws, ps)"
    and inv: "\<And>k. map_of ps k =
      map_option (\<lambda>p. p\<lparr>stock_quantity := stock_quantity p - units_for k its\<rparr>)
        (map_of (products st) k)"
    using place_items_within_stock [OF assms(2) start, of False "[]"] by auto
  define st' where
    "st' = st\<lparr>products := ps, orders := upsert_item (oid order) order (orders st),
             invoices := invoices st @ [order]\<rparr>"
  have "validate_and_place_order order False st =
      (Inr (Success ws (oid order) (''invoice_'' @ oid order @ ''.pdf'')), st')"
    using assms(1) run
    by (simp add: validate_and_place_order_def generate_invoice_pdf_def st'_def)
  moreover have "map_of (orders st') (oid order) = Some order"
    by (simp add: st'_def upsert_item_def update_conv')
  moreover have "\<forall>k. map_of (products st') k =
      map_option (\<lambda>p. p\<lparr>stock_quantity := stock_quantity p - units_for k its\<rparr>)
        (map_of (products st) k)"
    using inv by (simp add: st'_def)
  ultimately show ?thesis by blast
qed

text \<open>
  C3 at an order of 12 apples, 3 bananas and 8 more apples against 20 of each: the apples
  end at 0 and the bananas at 17.
\<close>

theorem in_stock_order_succeeds_witness:
  "\<exists>ws f st'. validate_and_place_order (order_of ''ada@example.org'' [apples 12, bananas 3, apples 8] 78.4) False seeded =
     (Inr (Success ws ''order_2024-05-01_ada@example.org'' f), st') \<and>
     map_of (products st') ''prod_001'' = Some (apple\<lparr>stock_quantity := 0\<rparr>) \<and>
     map_of (products st') ''prod_002'' = Some (banana\<lparr>stock_quantity := 17\<rparr>) \<and>
     map_of (orders st') ''order_2024-05-01_ada@example.org'' =
       Some (order_of ''ada@example.org'' [apples 12, bananas 3, apples 8] 78.4)"
proof -
  let ?o = "order_of ''ada@example.org'' [apples 12, bananas 3, apples 8] 78.4"
  have a: "items ?o = Some [apples 12, bananas 3, apples 8]"
    by (simp add: order_of_def)
  have b: "within_stock (products seeded) [] [apples 12, bananas 3, apples 8]"
    by (simp add: sample_defs units_for_def)
  from in_stock_order_succeeds [OF a b] obtain ws f st' where
    r: "validate_and_place_order ?o False seeded = (Inr (Success ws (oid ?o) f), st')"
    and m: "\<And>k. map_of (products st') k =
            map_option (\<lambda>p. p\<lparr>stock_quantity := stock_quantity p - units_for k [apples 12, bananas 3, apples 8]\<rparr>)
              (map_of (products seeded) k)"
    and s: "map_of (orders st') (oid ?o) = Some ?o"
    by blast
  have "map_of (products st') ''prod_001'' = Some (apple\<lparr>stock_quantity := 0\<rparr>)"
    using m [of "''prod_001''"] by (simp add: sample_defs units_for_def)
  moreover have "map_of (products st') ''prod_002'' = Some (banana\<lparr>stock_quantity := 17\<rparr>)"
    using m [of "''prod_002''"] by (simp add: sample_defs units_for_def)
  moreover have "oid ?o = ''order_2024-05-01_ada@example.org''"
    by (simp add: order_of_def)
  ultimately show ?thesis
    using r s by auto
qed

subsection \<open>Stock never negative\<close>

lemma list_all_update:
  "list_all P al \<Longrightarrow> P (k, v) \<Longrightarrow> list_all P (AList.update k v al)"
  by (induction al) auto

lemma place_item_nonneg:
  assumes "list_all (\<lambda>kp. 0 \<le> stock_quantity (snd kp)) ps"
  shows "list_all (\<lambda>kp. 0 \<le> stock_quantity (snd kp)) (snd (place_item ap it ps ws))"
proof (cases "map_of ps (product_id it)")
  case None
  then show ?thesis using assms by (simp add: place_item_missing)
next
  case (Some p)
  show ?thesis
  proof (cases "quantity it \<le> stock_quantity p")
    case True
    then show ?thesis
      using assms Some by (simp add: place_item_filled list_all_update)
  next
    case False
    then show ?thesis
      using assms Some
      by (cases ap) (simp_all add: place_item_preordered place_item_rejected list_all_update)
  qed
qed

lemma place_items_nonneg:
  "list_all (\<lambda>kp. 0 \<le> stock_quantity (snd kp)) ps \<Longrightarrow>
   list_all (\<lambda>kp. 0 \<le> stock_quantity (snd kp)) (snd (place_items ap its ps ws))"
proof (induction its arbitrary: ps ws)
  case Nil
  then show ?case by simp
next
  case (Cons it rest)
  have step: "list_all (\<lambda>kp. 0 \<le> stock_quantity (snd kp)) (snd (place_item ap it ps ws))"
    using Cons.prems by (rule place_item_nonneg)
  show ?case
  proof (cases "place_item ap it ps ws")
    case (Pair ex ps1)
    with step Cons.IH [of ps1] show ?thesis
      by (cases ex) simp_all
  qed
qed

lemma validate_and_place_order_nonneg:
  assumes "stock_nonneg st"
  shows "stock_nonneg (snd (validate_and_place_order order ap st))"
proof (cases "items order")
  case None
  then show ?thesis using assms by (simp add: validate_and_place_order_def)
next
  case (Some its)
  have ok: "list_all (\<lambda>kp. 0 \<le> stock_quantity (snd kp)) (snd (place_items ap its (products st) []))"
    using assms unfolding stock_nonneg_def by (rule place_items_nonneg)
  show ?thesis
  proof (cases "place_items ap its (products st) []")
    case (Pair ex ps)
    with ok Some show ?thesis
      by (cases ex)
        (simp_all add: validate_and_place_order_def stock_nonneg_def generate_invoice_pdf_def)
  qed
qed

lemma adjust_stock_nonneg:
  assumes "stock_nonneg st"
  shows "stock_nonneg (snd (adjust_stock pid adjustment st))"
  using assms
  by (auto simp: adjust_stock_def read_item_def replace_item_def stock_nonneg_def Let_def
        list_all_update split: option.splits)

lemma run_calls_nonneg:
  "stock_nonneg st \<Longrightarrow> stock_nonneg (run_calls cs st)"
proof (induction cs arbitrary: st)
  case Nil
  then show ?case by simp
next
  case (Cons c cs)
  have "stock_nonneg (run_call c st)"
    using Cons.prems
    by (cases c) (simp_all add: validate_and_place_order_nonneg adjust_stock_nonneg)
  then show ?case
    using Cons.IH by simp
qed

lemma place_item_takes_at_most_stock:
  assumes "map_of ps (product_id it) = Some p"
    and "place_item ap it ps ws = (Continue ws', ps')"
  shows "map_of ps' (product_id it) =
           Some (p\<lparr>stock_quantity := stock_quantity p - min (quantity it) (stock_quantity p)\<rparr>)"
proof (cases "quantity it \<le> stock_quantity p")
  case True
  then show ?thesis
    using assms place_item_filled [OF assms(1) True, of ap ws]
    by (auto simp: update_conv' min_def)
next
  case False
  then have short: "stock_quantity p < quantity it" by simp
  then have "ap"
    using assms place_item_rejected [OF assms(1) short, of ws] by (cases ap) auto
  then show ?thesis
    using assms place_item_preordered [OF assms(1) short, of ws] short
    by (auto simp: update_conv' min_def)
qed

lemma adjust_stock_clamps:
  "adjust_stock pid adjustment st = (Inr q, st') \<Longrightarrow> 0 \<le> q"
  by (auto simp: adjust_stock_def read_item_def replace_item_def Let_def
        split: option.splits if_splits)

text \<open>
  C2: from a state in which no product has negative stock, no product has negative stock
  after any number of the calls of any sequence of order placements and stock adjustments,
  whatever each call returns or raises.
\<close>

theorem stock_never_negative:
  "stock_nonneg st \<Longrightarrow> stock_nonneg (run_calls (take n cs) st)"
proof -
  assume "stock_nonneg st"
  then have "stock_nonneg (run_calls ds st)" for ds
    by (rule run_calls_nonneg)
  then show ?thesis .
qed

text \<open>
  C2 at a preorder of 25 apples, an adjustment of the bananas by -50 and an order of one
  banana that is rejected: both products are at 0.
\<close>

theorem stock_never_negative_witness:
  "stock_nonneg seeded \<and>
   stock_nonneg (run_calls (take 3
     [PlaceOrder (order_of ''ada@example.org'' [apples 25] 87.5) True,
      AdjustStock ''prod_002'' (- 50),
      PlaceOrder (order_of ''bob@example.org'' [bananas 1] 2.8) False,
      AdjustStock ''prod_001'' 7]) seeded) \<and>
   map (stock_quantity \<circ> snd) (products (run_calls (take 3
     [PlaceOrder (order_of ''ada@example.org'' [apples 25] 87.5) True,
      AdjustStock ''prod_002'' (- 50),
      PlaceOrder (order_of ''bob@example.org'' [bananas 1] 2.8) False,
      AdjustStock ''prod_001'' 7]) seeded)) = [0, 0]"
proof -
  have h: "stock_nonneg seeded"
    by (simp add: stock_nonneg_def sample_defs)
  have v: "map (stock_quantity \<circ> snd) (products (run_calls (take 3
     [PlaceOrder (order_of ''ada@example.org'' [apples 25] 87.5) True,
      AdjustStock ''prod_002'' (- 50),
      PlaceOrder (order_of ''bob@example.org'' [bananas 1] 2.8) False,
      AdjustStock ''prod_001'' 7]) seeded)) = [0, 0]"
    by (simp add: sample_defs engine_defs adjust_stock_def)
  show ?thesis
    using h v stock_never_negative [OF h, of 3] by blast
qed

subsection \<open>The daily summary\<close>

lemma foldl_plus_sum_list:
  "foldl (+) a xs = a + sum_list (xs :: real list)"
  by (induction xs arbitrary: a) simp_all

lemma units_named_append:
  "units_named n (xs @ ys) = units_named n xs + units_named n ys"
  by (simp add: units_named_def)

lemma dict_get_tally_item:
  "dict_get (tally_item pt it) n 0 =
     dict_get pt n 0 + (if product_name it = n then quantity it else 0)"
  by (simp add: tally_item_def dict_get_def update_conv' split: option.splits)

lemma dict_get_tally_items:
  "dict_get (foldl tally_item pt its) n 0 = dict_get pt n 0 + units_named n its"
proof (induction its arbitrary: pt)
  case Nil
  then show ?case by (simp add: units_named_def)
next
  case (Cons it its)
  show ?case
    by (simp add: Cons.IH dict_get_tally_item units_named_def)
qed

lemma dict_get_tally_order:
  "dict_get (tally_order pt order) n 0 = dict_get pt n 0 + units_named n (order_items order)"
  by (simp add: tally_order_def dict_get_tally_items)

lemma dict_get_tally_orders:
  "dict_get (foldl tally_order pt os) n 0 = dict_get pt n 0 + units_named n (line_items os)"
proof (induction os arbitrary: pt)
  case Nil
  then show ?case by (simp add: line_items_def units_named_def)
next
  case (Cons order os)
  have "line_items (order # os) = order_items order @ line_items os"
    by (simp add: line_items_def)
  then show ?case
    by (simp add: Cons.IH dict_get_tally_order units_named_append)
qed

lemma keys_tally_items:
  "fst ` set (foldl tally_item pt its) = fst ` set pt \<union> product_name ` set its"
  by (induction its arbitrary: pt) (auto simp: tally_item_def dom_update)

lemma keys_tally_order:
  "fst ` set (tally_order pt order) = fst ` set pt \<union> product_name ` set (order_items order)"
  by (simp add: tally_order_def keys_tally_items)

lemma keys_tally_orders:
  "fst ` set (foldl tally_order pt os) = fst ` set pt \<union> product_name ` set (line_items os)"
proof (induction os arbitrary: pt)
  case Nil
  then show ?case by (simp add: line_items_def)
next
  case (Cons order os)
  have "line_items (order # os) = order_items order @ line_items os"
    by (simp add: line_items_def)
  then show ?case
    by (simp add: Cons.IH keys_tally_order Un_assoc image_Un)
qed

lemma distinct_tally_items:
  "distinct (map fst pt) \<Longrightarrow> distinct (map fst (foldl tally_item pt its))"
  by (induction its arbitrary: pt) (simp_all add: tally_item_def distinct_update)

lemma distinct_tally_order:
  "distinct (map fst pt) \<Longrightarrow> distinct (map fst (tally_order pt order))"
  by (simp add: tally_order_def distinct_tally_items)

lemma distinct_tally_orders:
  "distinct (map fst pt) \<Longrightarrow> distinct (map fst (foldl tally_order pt os))"
  by (induction os arbitrary: pt) (simp_all add: distinct_tally_order)

lemma max_from_greatest:
  "max_from best rest \<in> set (best # rest) \<and>
   (\<forall>kv\<in>set (best # rest). snd kv \<le> snd (max_from best rest))"
proof (induction rest arbitrary: best)
  case Nil
  then show ?case by simp
next
  case (Cons kv rest)
  let ?b = "if snd kv > snd best then kv else best"
  from Cons.IH [of ?b] have
    mem: "max_from ?b rest \<in> set (?b # rest)"
    and ge: "\<forall>x\<in>set (?b # rest). snd x \<le> snd (max_from ?b rest)"
    by blast+
  have "snd kv \<le> snd ?b" "snd best \<le> snd ?b"
    by simp_all
  moreover have "snd ?b \<le> snd (max_from ?b rest)"
    using ge by simp
  ultimately have "snd kv \<le> snd (max_from ?b rest)" "snd best \<le> snd (max_from ?b rest)"
    by linarith+
  moreover have "\<forall>x\<in>set rest. snd x \<le> snd (max_from ?b rest)"
    using ge by simp
  moreover have "max_from ?b rest \<in> set (best # kv # rest)"
    using mem by (auto split: if_splits)
  ultimately show ?case by simp
qed

lemma max_key_greatest:
  assumes "d \<noteq> []" and "distinct (map fst d)"
  shows "\<exists>n. max_key d = Some n \<and> n \<in> fst ` set d \<and>
           (\<forall>m\<in>fst ` set d. dict_get d m 0 \<le> dict_get d n 0)"
proof -
  obtain kv rest where d: "d = kv # rest"
    using assms(1) by (cases d) auto
  define b where "b = max_from kv rest"
  have mem: "b \<in> set d" and ge: "\<forall>x\<in>set d. snd x \<le> snd b"
    using max_from_greatest [of kv rest] by (simp_all add: b_def d)
  have val: "dict_get d (fst x) 0 = snd x" if "x \<in> set d" for x
  proof -
    have "map_of d (fst x) = Some (snd x)"
      using that assms(2) by simp
    then show ?thesis by (simp add: dict_get_def)
  qed
  have "max_key d = Some (fst b)"
    by (simp add: max_key_def d b_def)
  moreover have "fst b \<in> fst ` set d"
    using mem by (rule imageI)
  moreover have "\<forall>m\<in>fst ` set d. dict_get d m 0 \<le> dict_get d (fst b) 0"
    using ge val mem by auto
  ultimately show ?thesis by blast
qed

text \<open>
  C5, as stated, fails: an order without items is placed and stored, so the summary of its
  day counts one order, and yet no product is the most popular.
\<close>

theorem daily_summary_no_items_counterexample:
  "succeeded (fst (validate_and_place_order (order_of ''ada@example.org'' [] 0) False seeded)) \<and>
   total_orders (generate_daily_summary ''2024-05-01''
     (snd (validate_and_place_order (order_of ''ada@example.org'' [] 0) False seeded))) = 1 \<and>
   most_popular_product (generate_daily_summary ''2024-05-01''
     (snd (validate_and_place_order (order_of ''ada@example.org'' [] 0) False seeded))) = None"
  by (simp add: sample_defs engine_defs generate_daily_summary_def query_items_def
        product_totals_def tally_order_def order_items_def)

text \<open>
  C5, amended: for the orders \<open>os\<close> stored with the given date, the summary has that date,
  counts \<open>os\<close>, sums their \<^verbatim>\<open>order_total\<close> (0 where absent), and its most popular
  product is null exactly when \<open>os\<close> has no line item at all; otherwise it is the name of a
  line item whose units, summed over all line items of \<open>os\<close>, are at least those of every
  other name.
\<close>

theorem daily_summary_totals:
  fixes d :: string and st :: store
  defines "os \<equiv> filter (\<lambda>order. order_date order = d) (map snd (orders st))"
  shows "date (generate_daily_summary d st) = d \<and>
    total_orders (generate_daily_summary d st) = int (length os) \<and>
    total_revenue (generate_daily_summary d st) = sum_list (map order_revenue os) \<and>
    (most_popular_product (generate_daily_summary d st) = None \<longleftrightarrow> line_items os = []) \<and>
    (\<forall>n. most_popular_product (generate_daily_summary d st) = Some n \<longrightarrow>
       n \<in> product_name ` set (line_items os) \<and>
       (\<forall>m\<in>product_name ` set (line_items os).
          units_named m (line_items os) \<le> units_named n (line_items os)))"
proof -
  have q: "query_items d (orders st) = os"
    by (simp add: query_items_def os_def)
  have keys: "fst ` set (product_totals os) = product_name ` set (line_items os)"
    by (simp add: product_totals_def keys_tally_orders)
  have units: "dict_get (product_totals os) n 0 = units_named n (line_items os)" for n
  proof -
    have "dict_get [] n 0 = 0"
      by (simp add: dict_get_def)
    then show ?thesis
      by (simp add: product_totals_def dict_get_tally_orders)
  qed
  have dist: "distinct (map fst (product_totals os))"
    by (simp add: product_totals_def distinct_tally_orders)
  have empty: "product_totals os = [] \<longleftrightarrow> line_items os = []"
    using keys by (metis image_is_empty set_empty)
  have pop: "most_popular_product (generate_daily_summary d st) =
      (if product_totals os \<noteq> [] then max_key (product_totals os) else None)"
    by (simp add: generate_daily_summary_def q Let_def)
  have basics: "date (generate_daily_summary d st) = d \<and>
      total_orders (generate_daily_summary d st) = int (length os) \<and>
      total_revenue (generate_daily_summary d st) = sum_list (map order_revenue os)"
    by (simp add: generate_daily_summary_def q Let_def foldl_plus_sum_list)
  show ?thesis
  proof (cases "product_totals os = []")
    case True
    with pop empty basics show ?thesis by simp
  next
    case False
    from max_key_greatest [OF False dist] obtain n where
      n: "max_key (product_totals os) = Some n"
      and mem: "n \<in> fst ` set (product_totals os)"
      and ge: "\<forall>m\<in>fst ` set (product_totals os).
                 dict_get (product_totals os) m 0 \<le> dict_get (product_totals os) n 0"
      by blast
    have "most_popular_product (generate_daily_summary d st) = Some n"
      using pop False n by simp
    moreover have "line_items os \<noteq> []"
      using False empty by simp
    moreover have "n \<in> product_name ` set (line_items os)"
      using mem keys by simp
    moreover have "\<forall>m\<in>product_name ` set (line_items os).
        units_named m (line_items os) \<le> units_named n (line_items os)"
      using ge keys units by simp
    ultimately show ?thesis
      using basics by simp
  qed
qed

text \<open>
  C5 (amended) at three stored orders, two of them of 1 May: 2 orders, revenue 27.3, and
  Banana (6 units) ahead of Apple (3 units).
\<close>

theorem daily_summary_totals_witness:
  "generate_daily_summary ''2024-05-01'' two_days =
     \<lparr>date = ''2024-05-01'', total_orders = 2, total_revenue = 27.3,
      most_popular_product = Some ''Banana''\<rparr> \<and>
   ''Apple'' \<in> product_name ` set (line_items
      (filter (\<lambda>order. order_date order = ''2024-05-01'') (map snd (orders two_days)))) \<and>
   units_named ''Apple'' (line_items
      (filter (\<lambda>order. order_date order = ''2024-05-01'') (map snd (orders two_days))))
   \<le> units_named ''Banana'' (line_items
      (filter (\<lambda>order. order_date order = ''2024-05-01'') (map snd (orders two_days))))"
proof -
  have s: "generate_daily_summary ''2024-05-01'' two_days =
     \<lparr>date = ''2024-05-01'', total_orders = 2, total_revenue = 27.3,
      most_popular_product = Some ''Banana''\<rparr>"
    by (simp add: two_days_def sample_defs generate_daily_summary_def query_items_def
          product_totals_def tally_order_def order_items_def tally_item_def dict_get_def
          max_key_def order_revenue_def)
  have a: "''Apple'' \<in> product_name ` set (line_items
      (filter (\<lambda>order. order_date order = ''2024-05-01'') (map snd (orders two_days))))"
    by (simp add: two_days_def sample_defs line_items_def order_items_def)
  have p: "most_popular_product (generate_daily_summary ''2024-05-01'' two_days) = Some ''Banana''"
    by (simp add: s)
  show ?thesis
    using s a p daily_summary_totals [of "''2024-05-01''" two_days] by blast
qed

subsection \<open>Preorders\<close>

lemma str_int_0: "str_int 0 = ''0''"
  by (simp add: str_int_def str_nat.simps digit_def)

lemma place_item_with_preorder:
  assumes "map_of ps (product_id it) = Some p"
  shows "\<exists>w p'. place_item True it ps ws = (Continue (ws @ w), AList.update (product_id it) p' ps) \<and>
           (stock_quantity p = 0 \<and> 0 \<le> quantity it \<longrightarrow> p' = p)"
proof (cases "quantity it \<le> stock_quantity p")
  case True
  let ?p' = "p\<lparr>stock_quantity := stock_quantity p - quantity it\<rparr>"
  have "place_item True it ps ws =
      (Continue (ws @ (if stock_quantity p - quantity it < 10 then [low_stock_warning ?p'] else [])),
       AList.update (product_id it) ?p' ps)"
    using place_item_filled [OF assms True, of True ws] by simp
  moreover have "stock_quantity p = 0 \<and> 0 \<le> quantity it \<longrightarrow> ?p' = p"
    using True by auto
  ultimately show ?thesis by blast
next
  case False
  then have "stock_quantity p < quantity it" by simp
  from place_item_preordered [OF assms this, of ws] show ?thesis
    by auto
qed

lemma place_items_with_preorder:
  assumes "\<forall>i\<in>set its. map_of ps (product_id i) \<noteq> None"
    and "map_of ps k = Some p"
    and "stock_quantity p = 0"
    and "\<forall>i\<in>set its. product_id i = k \<longrightarrow> 0 \<le> quantity i"
  shows "\<exists>w ps'. place_items True its ps ws = (Continue (ws @ w), ps') \<and> map_of ps' k = Some p"
  using assms
proof (induction its arbitrary: ps ws)
  case Nil
  then show ?case by simp
next
  case (Cons it rest)
  from Cons.prems(1) obtain q where q: "map_of ps (product_id it) = Some q"
    by auto
  from place_item_with_preorder [OF q, of ws] obtain w q' where
    step: "place_item True it ps ws = (Continue (ws @ w), AList.update (product_id it) q' ps)"
    and same: "stock_quantity q = 0 \<and> 0 \<le> quantity it \<longrightarrow> q' = q"
    by blast
  let ?ps1 = "AList.update (product_id it) q' ps"
  have exist: "\<forall>i\<in>set rest. map_of ?ps1 (product_id i) \<noteq> None"
    using Cons.prems(1) by (simp add: update_conv')
  have kept: "map_of ?ps1 k = Some p"
  proof (cases "product_id it = k")
    case True
    then have "q = p" using q Cons.prems(2) by simp
    moreover have "0 \<le> quantity it" using True Cons.prems(4) by simp
    ultimately have "q' = p" using same Cons.prems(3) by simp
    then show ?thesis using True by (simp add: update_conv')
  next
    case False
    then show ?thesis using Cons.prems(2) by (simp add: update_conv')
  qed
  have later: "\<forall>i\<in>set rest. product_id i = k \<longrightarrow> 0 \<le> quantity i"
    using Cons.prems(4) by simp
  from Cons.IH [OF exist kept Cons.prems(3) later, of "ws @ w"] obtain w' ps' where
    "place_items True rest ?ps1 (ws @ w) = (Continue ((ws @ w) @ w'), ps')"
    and "map_of ps' k = Some p"
    by blast
  then have "place_items True (it # rest) ps ws = (Continue (ws @ (w @ w')), ps') \<and>
      map_of ps' k = Some p"
    using step by simp
  then show ?case by blast
qed

lemma place_item_keys:
  "fst ` set (snd (place_item ap it ps ws)) = fst ` set ps"
proof (cases "map_of ps (product_id it)")
  case None
  then show ?thesis by (simp add: place_item_missing)
next
  case (Some p)
  then have "product_id it \<in> fst ` set ps"
    by (metis map_of_eq_None_iff option.distinct(1))
  then have "insert (product_id it) (fst ` set ps) = fst ` set ps"
    by auto
  then show ?thesis
    using Some
    by (cases "quantity it \<le> stock_quantity p"; cases ap)
      (simp_all add: place_item_filled place_item_preordered place_item_rejected dom_update)
qed

lemma place_items_keys:
  "fst ` set (snd (place_items ap its ps ws)) = fst ` set ps"
proof (induction its arbitrary: ps ws)
  case Nil
  then show ?case by simp
next
  case (Cons it rest)
  show ?case
  proof (cases "place_item ap it ps ws")
    case (Pair ex ps1)
    then have "fst ` set ps1 = fst ` set ps"
      using place_item_keys [of ap it ps ws] by simp
    with Pair Cons.IH [of ps1] show ?thesis
      by (cases ex) simp_all
  qed
qed

text \<open>
  C4: let the items before \<open>it\<close> have been processed under preorder, leaving \<open>ws\<close> and the
  products \<open>ps\<close>, and let \<open>it\<close> ask for more than the stock \<open>p\<close> of its product then has.
  When the later items reference stored products and none of them returns units to the
  product of \<open>it\<close>, the order succeeds, the warnings continue with the preorder warning
  for the missing units followed by the low-stock warning with 0 left, the product ends
  with stock 0 and otherwise as it was, and the order is stored.
\<close>

theorem preorder_empties_stock:
  assumes "items order = Some (pre @ it # post)"
    and "place_items True pre (products st) [] = (Continue ws, ps)"
    and "map_of ps (product_id it) = Some p"
    and "stock_quantity p < quantity it"
    and "\<forall>i\<in>set post. product_id i \<in> fst ` set (products st)"
    and "\<forall>i\<in>set post. product_id i = product_id it \<longrightarrow> 0 \<le> quantity i"
  shows "\<exists>w f st'. validate_and_place_order order True st =
           (Inr (Success
                  (ws @ [''Pre-order placed for '' @ str_int (quantity it - stock_quantity p)
                           @ '' unit(s)'',
                         ''Low stock alert: '' @ name p @ '' (0 left)''] @ w)
                  (oid order) f), st') \<and>
         map_of (products st') (product_id it) = Some (p\<lparr>stock_quantity := 0\<rparr>) \<and>
         map_of (orders st') (oid order) = Some order"
proof -
  let ?p0 = "p\<lparr>stock_quantity := 0\<rparr>"
  let ?ps1 = "AList.update (product_id it) ?p0 ps"
  let ?ws1 = "ws @ [preorder_warning (quantity it) (stock_quantity p), low_stock_warning ?p0]"
  have step: "place_item True it ps ws = (Continue ?ws1, ?ps1)"
    using assms(3,4) by (rule place_item_preordered)
  have keys: "fst ` set ps = fst ` set (products st)"
    using place_items_keys [of True pre "products st" "[]"] assms(2) by simp
  have "product_id it \<in> fst ` set ps"
    using assms(3) by (metis map_of_eq_None_iff option.distinct(1))
  then have "fst ` set ?ps1 = fst ` set (products st)"
    using keys by (simp add: dom_update insert_absorb)
  then have exist: "\<forall>i\<in>set post. map_of ?ps1 (product_id i) \<noteq> None"
    using assms(5) by (simp add: map_of_eq_None_iff)
  have kept: "map_of ?ps1 (product_id it) = Some ?p0"
    by (simp add: update_conv')
  have zero: "stock_quantity ?p0 = 0"
    by simp
  from place_items_with_preorder [OF exist kept zero assms(6), of ?ws1] obtain w ps' where
    post: "place_items True post ?ps1 ?ws1 = (Continue (?ws1 @ w), ps')"
    and final: "map_of ps' (product_id it) = Some ?p0"
    by blast
  have run: "place_items True (pre @ it # post) (products st) [] = (Continue (?ws1 @ w), ps')"
    using assms(2) step post by (simp add: place_items_append)
  define st' where
    "st' = st\<lparr>products := ps', orders := upsert_item (oid order) order (orders st),
             invoices := invoices st @ [order]\<rparr>"
  have texts: "?ws1 @ w =
      ws @ [''Pre-order placed for '' @ str_int (quantity it - stock_quantity p) @ '' unit(s)'',
            ''Low stock alert: '' @ name p @ '' (0 left)''] @ w"
    by (simp add: preorder_warning_def low_stock_warning_def str_int_0)
  have "validate_and_place_order order True st =
      (Inr (Success (?ws1 @ w) (oid order) (''invoice_'' @ oid order @ ''.pdf'')), st')"
    using assms(1) run
    by (simp add: validate_and_place_order_def generate_invoice_pdf_def st'_def)
  moreover have "map_of (products st') (product_id it) = Some ?p0"
    using final by (simp add: st'_def)
  moreover have "map_of (orders st') (oid order) = Some order"
    by (simp add: st'_def upsert_item_def update_conv')
  ultimately show ?thesis
    unfolding texts by blast
qed

text \<open>
  C4 at 2 bananas and 25 apples against 20 of each: a preorder of 5 units, the low-stock
  alert for Apple, and no apples left.
\<close>

theorem preorder_empties_stock_witness:
  "\<exists>w f st'. validate_and_place_order (order_of ''ada@example.org'' [bananas 2, apples 25] 93.1) True seeded =
     (Inr (Success ([''Pre-order placed for 5 unit(s)'', ''Low stock alert: Apple (0 left)''] @ w)
            ''order_2024-05-01_ada@example.org'' f), st') \<and>
     map_of (products st') ''prod_001'' = Some (apple\<lparr>stock_quantity := 0\<rparr>)"
proof -
  let ?o = "order_of ''ada@example.org'' [bananas 2, apples 25] 93.1"
  have a: "items ?o = Some ([bananas 2] @ apples 25 # [])"
    by (simp add: order_of_def)
  have b: "place_items True [bananas 2] (products seeded) [] =
      (Continue [], [(''prod_001'', apple), (''prod_002'', banana\<lparr>stock_quantity := 18\<rparr>)])"
    by (simp add: sample_defs engine_defs)
  have c: "map_of [(''prod_001'', apple), (''prod_002'', banana\<lparr>stock_quantity := 18\<rparr>)]
      (product_id (apples 25)) = Some apple"
    by (simp add: sample_defs)
  have d: "stock_quantity apple < quantity (apples 25)"
    by (simp add: sample_defs)
  have e: "\<forall>i\<in>set []. product_id i \<in> fst ` set (products seeded)"
    by simp
  have f: "\<forall>i\<in>set []. product_id i = product_id (apples 25) \<longrightarrow> 0 \<le> quantity i"
    by simp
  have g: "str_int (quantity (apples 25) - stock_quantity apple) = ''5''"
    by (simp add: sample_defs str_int_def str_nat.simps digit_def)
  have h: "name apple = ''Apple''" "product_id (apples 25) = ''prod_001''"
    "oid ?o = ''order_2024-05-01_ada@example.org''"
    by (simp_all add: sample_defs)
  from preorder_empties_stock [OF a b c d e f] show ?thesis
    unfolding g h by auto
qed

subsection \<open>The order store\<close>

lemma place_item_returns_error:
  "place_item ap it ps ws = (Returned r, ps') \<Longrightarrow> \<exists>m a. r = Error m a True"
  by (auto simp: place_item_def read_item_def replace_item_def Let_def
        split: option.splits if_splits)

lemma place_items_returns_error:
  "place_items ap its ps ws = (Returned r, ps') \<Longrightarrow> \<exists>m a. r = Error m a True"
proof (induction its arbitrary: ps ws)
  case Nil
  then show ?case by simp
next
  case (Cons it rest)
  show ?case
  proof (cases "place_item ap it ps ws")
    case (Pair ex ps1)
    show ?thesis
    proof (cases ex)
      case (Raised e)
      with Pair Cons.prems show ?thesis by simp
    next
      case (Returned r')
      with Pair Cons.prems have "r' = r" by simp
      with Pair Returned show ?thesis
        using place_item_returns_error by blast
    next
      case (Continue ws1)
      with Pair Cons.prems have "place_items ap rest ps1 ws1 = (Returned r, ps')" by simp
      then show ?thesis by (rule Cons.IH)
    qed
  qed
qed

lemma state_after_success:
  assumes "validate_and_place_order order ap st = (Inr (Success ws i f), st')"
  shows "\<exists>ps. st' = st\<lparr>products := ps, orders := upsert_item (oid order) order (orders st),
                       invoices := invoices st @ [order]\<rparr>"
proof (cases "items order")
  case None
  with assms show ?thesis by (simp add: validate_and_place_order_def)
next
  case (Some its)
  show ?thesis
  proof (cases "place_items ap its (products st) []")
    case (Pair ex ps)
    show ?thesis
    proof (cases ex)
      case (Raised e)
      with Pair Some assms show ?thesis by (simp add: validate_and_place_order_def)
    next
      case (Returned r)
      with Pair have "\<exists>m a. r = Error m a True"
        using place_items_returns_error by blast
      with Returned Pair Some assms show ?thesis
        by (auto simp: validate_and_place_order_def)
    next
      case (Continue ws1)
      with Pair Some assms show ?thesis
        by (auto simp: validate_and_place_order_def generate_invoice_pdf_def)
    qed
  qed
qed





subsection \<open>The stored order is the order as given\<close>

lemma filter_update_fresh:
  "filter P (map snd al) = [] \<Longrightarrow> P v \<Longrightarrow> filter P (map snd (AList.update k v al)) = [v]"
  by (induction al) (auto split: if_splits)

lemma update_member:
  "(k, v) \<in> set (AList.update k v al)"
  by (induction al) auto

text \<open>
  C10: after a successful placement the order store holds, under the order's id, the order
  exactly as it was given (with the requested quantities and the given total, whatever was
  clamped for the stock), and the query for its date returns it. The tallies of the summary
  count, for each product name, the units the order's items request; when no other order of
  that date is stored, the summary of the date is one order with the given total as revenue.
\<close>

theorem stored_order_as_requested:
  assumes "validate_and_place_order order ap st = (Inr (Success ws i f), st')"
  shows "map_of (orders st') (oid order) = Some order \<and>
    order \<in> set (query_items (order_date order) (orders st')) \<and>
    (\<forall>n. dict_get (product_totals [order]) n 0 = units_named n (order_items order)) \<and>
    (query_items (order_date order) (orders st) = [] \<longrightarrow>
       generate_daily_summary (order_date order) st' =
         \<lparr>date = order_date order, total_orders = 1, total_revenue = order_revenue order,
          most_popular_product = max_key (product_totals [order])\<rparr>)"
proof -
  obtain ps where st': "st' = st\<lparr>products := ps,
      orders := upsert_item (oid order) order (orders st), invoices := invoices st @ [order]\<rparr>"
    using state_after_success [OF assms] by blast
  have stored: "map_of (orders st') (oid order) = Some order"
    by (simp add: st' upsert_item_def update_conv')
  have "(oid order, order) \<in> set (orders st')"
    by (simp add: st' upsert_item_def update_member)
  then have "order \<in> snd ` set (orders st')"
    by force
  then have listed: "order \<in> set (query_items (order_date order) (orders st'))"
    by (simp add: query_items_def)
  have tally: "dict_get (product_totals [order]) n 0 = units_named n (order_items order)" for n
  proof -
    have "dict_get [] n 0 = 0"
      by (simp add: dict_get_def)
    then show ?thesis
      by (simp add: product_totals_def dict_get_tally_order)
  qed
  have alone: "generate_daily_summary (order_date order) st' =
         \<lparr>date = order_date order, total_orders = 1, total_revenue = order_revenue order,
          most_popular_product = max_key (product_totals [order])\<rparr>"
    if "query_items (order_date order) (orders st) = []"
  proof -
    have "query_items (order_date order) (orders st') = [order]"
      using that by (simp add: query_items_def st' upsert_item_def filter_update_fresh)
    moreover have "max_key [] = None"
      by (simp add: max_key_def)
    ultimately show ?thesis
      by (simp add: generate_daily_summary_def Let_def)
  qed
  from stored listed tally alone show ?thesis by blast
qed

text \<open>
  C10 at a preorder of 25 apples against 20: the stock loses 20, the stored order and the
  summary say 25 units and a revenue of 87.5.
\<close>

theorem stored_order_as_requested_witness:
  "map_of (orders (snd (validate_and_place_order (order_of ''ada@example.org'' [apples 25] 87.5) True seeded)))
     ''order_2024-05-01_ada@example.org'' = Some (order_of ''ada@example.org'' [apples 25] 87.5) \<and>
   map (stock_quantity \<circ> snd)
     (products (snd (validate_and_place_order (order_of ''ada@example.org'' [apples 25] 87.5) True seeded)))
     = [0, 20] \<and>
   dict_get (product_totals [order_of ''ada@example.org'' [apples 25] 87.5]) ''Apple'' 0 = 25 \<and>
   generate_daily_summary ''2024-05-01''
     (snd (validate_and_place_order (order_of ''ada@example.org'' [apples 25] 87.5) True seeded)) =
     \<lparr>date = ''2024-05-01'', total_orders = 1, total_revenue = 87.5,
      most_popular_product = Some ''Apple''\<rparr>"
proof -
  let ?o = "order_of ''ada@example.org'' [apples 25] 87.5"
  let ?st' = "snd (validate_and_place_order ?o True seeded)"
  have a: "validate_and_place_order ?o True seeded =
      (Inr (Success [''Pre-order placed for 5 unit(s)'', ''Low stock alert: Apple (0 left)'']
              ''order_2024-05-01_ada@example.org''
              ''invoice_order_2024-05-01_ada@example.org.pdf''), ?st')"
    by (simp add: sample_defs engine_defs)
  have b: "query_items (order_date ?o) (orders seeded) = []"
    by (simp add: query_items_def sample_defs)
  have c: "oid ?o = ''order_2024-05-01_ada@example.org''" "order_date ?o = ''2024-05-01''"
    "order_revenue ?o = 87.5" "units_named ''Apple'' (order_items ?o) = 25"
    by (simp_all add: sample_defs order_revenue_def units_named_def order_items_def)
  have d: "max_key (product_totals [?o]) = Some ''Apple''"
    by (simp add: sample_defs product_totals_def tally_order_def order_items_def tally_item_def
          dict_get_def max_key_def)
  have e: "map (stock_quantity \<circ> snd) (products ?st') = [0, 20]"
    by (simp add: sample_defs engine_defs)
  show ?thesis
    using stored_order_as_requested [OF a] b c d e by simp
qed

subsection \<open>Storing the summary\<close>

lemmas summary_defs =
  store_summary_def store_summary_try_def sql_write_def generate_daily_summary_pdf_def
  diagnostic_def

lemma result_of_store_summary:
  "fst (store_summary fault p q s st) =
     (if fault = None \<and> p = None then Inr True
      else case q of None \<Rightarrow> Inr False | Some m \<Rightarrow> Inl (PdfError m))"
  by (cases fault; cases p; cases q) (simp_all add: summary_defs)

lemma rows_after_store_summary:
  "daily_summary (snd (store_summary fault p q s st)) =
     (if fault = None then insert_if_absent s (daily_summary st) else daily_summary st)"
  by (cases fault; cases p; cases q) (simp_all add: summary_defs)

lemma calls_after_store_summary:
  "pdf_calls (snd (store_summary fault p q s st)) =
     pdf_calls st @ (if fault = None \<and> p \<noteq> None then [s, s] else [s])"
  by (cases fault; cases p; cases q) (simp_all add: summary_defs)

lemma pdfs_after_store_summary:
  "summary_pdfs (snd (store_summary fault p q s st)) =
     summary_pdfs st @ (if (fault = None \<and> p = None) \<or> q = None then [s] else [])"
  by (cases fault; cases p; cases q) (simp_all add: summary_defs)


lemma insert_if_absent_present:
  assumes "filter (\<lambda>r. date r = date s) rows \<noteq> []"
  shows "insert_if_absent s rows = rows"
proof -
  from assms obtain r where "r \<in> set rows" and "date r = date s"
    by (auto simp: filter_empty_conv)
  then have "date s \<in> date ` set rows"
    by (metis imageI)
  then show ?thesis
    by (simp add: insert_if_absent_def)
qed

lemma insert_if_absent_one_row:
  assumes "length (filter (\<lambda>r. date r = date s) rows) \<le> 1"
  shows "length (filter (\<lambda>r. date r = date s) (insert_if_absent s rows)) = 1"
proof (cases "filter (\<lambda>r. date r = date s) rows = []")
  case True
  then have "date s \<notin> date ` set rows"
    by (auto simp: filter_empty_conv)
  with True show ?thesis
    by (simp add: insert_if_absent_def)
next
  case False
  then have "length (filter (\<lambda>r. date r = date s) rows) \<noteq> 0"
    by simp
  with assms have "length (filter (\<lambda>r. date r = date s) rows) = 1"
    by linarith
  with False show ?thesis
    by (simp add: insert_if_absent_present)
qed


text \<open>
  C6: two calls of \<^verbatim>\<open>store_summary\<close> with summaries of the same date, on a table with
  at most one row of that date, whatever the SQL server and the generator do. Each call
  invokes the generator with its summary, and when the generator does not raise both
  artifacts are rendered, one per call. The table never has more than one row of the date,
  it has exactly one when the SQL server answered one of the calls, and when it answered
  the first call the second call inserts nothing.
\<close>

theorem store_summary_one_row_per_date:
  assumes "date s2 = date s1"
    and "length (filter (\<lambda>r. date r = date s1) (daily_summary st)) \<le> 1"
    and "store_summary f1 p1 q1 s1 st = (r1, st1)"
    and "store_summary f2 p2 q2 s2 st1 = (r2, st2)"
  shows "(\<exists>c1 c2. pdf_calls st2 = pdf_calls st @ c1 @ c2 \<and> set c1 = {s1} \<and> set c2 = {s2}) \<and>
    (p1 = None \<and> q1 = None \<and> p2 = None \<and> q2 = None \<longrightarrow>
       summary_pdfs st2 = summary_pdfs st @ [s1, s2] \<and>
       pdf_calls st2 = pdf_calls st @ [s1, s2]) \<and>
    length (filter (\<lambda>r. date r = date s1) (daily_summary st2)) \<le> 1 \<and>
    (f1 = None \<or> f2 = None \<longrightarrow>
       length (filter (\<lambda>r. date r = date s1) (daily_summary st2)) = 1) \<and>
    (f1 = None \<longrightarrow> daily_summary st2 = daily_summary st1) \<and>
    (f1 = None \<and> f2 = None \<and> p1 = None \<and> p2 = None \<longrightarrow> r1 = Inr True \<and> r2 = Inr True)"
proof -
  have st1: "st1 = snd (store_summary f1 p1 q1 s1 st)"
    and st2: "st2 = snd (store_summary f2 p2 q2 s2 st1)"
    and r1: "r1 = fst (store_summary f1 p1 q1 s1 st)"
    and r2: "r2 = fst (store_summary f2 p2 q2 s2 st1)"
    using assms(3,4) by simp_all
  define c1 where "c1 = (if f1 = None \<and> p1 \<noteq> None then [s1, s1] else [s1])"
  define c2 where "c2 = (if f2 = None \<and> p2 \<noteq> None then [s2, s2] else [s2])"
  have "pdf_calls st2 = pdf_calls st @ c1 @ c2"
    by (simp add: st1 st2 calls_after_store_summary c1_def c2_def)
  moreover have "set c1 = {s1}" "set c2 = {s2}"
    by (simp_all add: c1_def c2_def)
  ultimately have calls: "\<exists>c1 c2. pdf_calls st2 = pdf_calls st @ c1 @ c2 \<and>
      set c1 = {s1} \<and> set c2 = {s2}"
    by blast
  have quiet: "summary_pdfs st2 = summary_pdfs st @ [s1, s2] \<and>
      pdf_calls st2 = pdf_calls st @ [s1, s2]"
    if "p1 = None \<and> q1 = None \<and> p2 = None \<and> q2 = None"
    using that by (simp add: st1 st2 calls_after_store_summary pdfs_after_store_summary)
  have rows1: "daily_summary st1 =
      (if f1 = None then insert_if_absent s1 (daily_summary st) else daily_summary st)"
    by (simp add: st1 rows_after_store_summary)
  have rows2: "daily_summary st2 =
      (if f2 = None then insert_if_absent s2 (daily_summary st1) else daily_summary st1)"
    by (simp add: st2 rows_after_store_summary)
  have one1: "length (filter (\<lambda>r. date r = date s1) (insert_if_absent s1 (daily_summary st))) = 1"
    using assms(2) by (rule insert_if_absent_one_row)
  have le1: "length (filter (\<lambda>r. date r = date s1) (daily_summary st1)) \<le> 1"
    using rows1 one1 assms(2) by simp
  then have one2: "length (filter (\<lambda>r. date r = date s1) (insert_if_absent s2 (daily_summary st1))) = 1"
    using insert_if_absent_one_row [of s2 "daily_summary st1"] assms(1) by simp
  have le2: "length (filter (\<lambda>r. date r = date s1) (daily_summary st2)) \<le> 1"
    using rows2 one2 le1 by simp
  have some: "length (filter (\<lambda>r. date r = date s1) (daily_summary st2)) = 1"
    if "f1 = None \<or> f2 = None"
  proof (cases f2)
    case None
    then have "daily_summary st2 = insert_if_absent s2 (daily_summary st1)"
      using rows2 by simp
    then show ?thesis using one2 by simp
  next
    case (Some y)
    with that have "f1 = None" by simp
    then have "daily_summary st1 = insert_if_absent s1 (daily_summary st)"
      using rows1 by simp
    moreover have "daily_summary st2 = daily_summary st1"
      using rows2 Some by simp
    ultimately show ?thesis using one1 by simp
  qed
  have same: "daily_summary st2 = daily_summary st1" if "f1 = None"
  proof -
    have "filter (\<lambda>r. date r = date s2) (daily_summary st1) \<noteq> []"
      using that rows1 one1 assms(1) by auto
    then have "insert_if_absent s2 (daily_summary st1) = daily_summary st1"
      by (rule insert_if_absent_present)
    then show ?thesis using rows2 by simp
  qed
  have both: "r1 = Inr True \<and> r2 = Inr True" if "f1 = None \<and> f2 = None \<and> p1 = None \<and> p2 = None"
    using that by (simp add: r1 r2 result_of_store_summary)
  from calls quiet le2 some same both show ?thesis by blast
qed

text \<open>
  C6 at two summaries of 1 May on an empty table: the row of the first call remains, and
  both artifacts are rendered.
\<close>

theorem store_summary_one_row_per_date_witness:
  "daily_summary (snd (store_summary None None None second_summary
        (snd (store_summary None None None first_summary seeded))))
     = [first_summary] \<and>
   summary_pdfs (snd (store_summary None None None second_summary
        (snd (store_summary None None None first_summary seeded))))
     = [first_summary, second_summary] \<and>
   pdf_calls (snd (store_summary None None None second_summary
        (snd (store_summary None None None first_summary seeded))))
     = [first_summary, second_summary] \<and>
   length (filter (\<lambda>r. date r = date first_summary)
     (daily_summary (snd (store_summary None None None second_summary
        (snd (store_summary None None None first_summary seeded)))))) = 1"
proof -
  let ?st1 = "snd (store_summary None None None first_summary seeded)"
  let ?st2 = "snd (store_summary None None None second_summary ?st1)"
  have a: "date second_summary = date first_summary"
    by (simp add: first_summary_def second_summary_def)
  have b: "length (filter (\<lambda>r. date r = date first_summary) (daily_summary seeded)) \<le> 1"
    by (simp add: seeded_def)
  have c: "store_summary None None None first_summary seeded =
      (fst (store_summary None None None first_summary seeded), ?st1)"
    by simp
  have d: "store_summary None None None second_summary ?st1 =
      (fst (store_summary None None None second_summary ?st1), ?st2)"
    by simp
  have e: "daily_summary ?st1 = [first_summary]"
    by (simp add: summary_defs insert_if_absent_def seeded_def)
  have f: "summary_pdfs seeded = []" "pdf_calls seeded = []"
    by (simp_all add: seeded_def)
  show ?thesis
    using store_summary_one_row_per_date [OF a b c d] e f by simp
qed




subsection \<open>Two calls at the same time\<close>










end
